theory Spec2Isabelle
  imports Main
begin

section \<open>Data model of \<^verbatim>\<open>topsql/scraper.go\<close>\<close>

text \<open>
  Modelled from the spec: the type \<^verbatim>\<open>utils.Component\<close> (package \<^verbatim>\<open>utils\<close> is not part of the
  sources at hand). The scraper reads its fields \<^verbatim>\<open>Kind\<close> and \<^verbatim>\<open>Addr\<close> and compares the kind with
  the two constants \<^verbatim>\<open>utils.ComponentTiDB\<close> and \<^verbatim>\<open>utils.ComponentTiKV\<close>; every other value of the
  kind reaches the \<^verbatim>\<open>default\<close> branches and is represented by \<open>ComponentOther\<close>.
\<close>

datatype ComponentKind = ComponentTiDB | ComponentTiKV | ComponentOther string

record Component =
  Kind :: ComponentKind
  Addr :: string

text \<open>
  Handles of the transport layer. A connection is identified by the number of the dial that
  created it, and the stream opened on a connection carries the number of that connection, so
  a handle obtained from a later dial is never equal to an earlier one.
\<close>

type_synonym handle = nat
type_synonym payload = nat
type_synonym tls_Config = string

text \<open>
  The cancellation token \<^verbatim>\<open>context.Context\<close>: \<open>None\<close> never fires, \<open>Some t\<close> fires when \<open>t\<close>
  backoff waits have run to their end (counted over the whole run) and stays fired, so that the
  wait with number \<open>clk\<close> is cut short exactly when \<open>fired c clk\<close>.
\<close>

type_synonym Context = "nat option"

definition fired :: "Context \<Rightarrow> nat \<Rightarrow> bool" where
  "fired c clk = (case c of None \<Rightarrow> False | Some t \<Rightarrow> t \<le> clk)"

text \<open>
  The dynamic values of the three \<^verbatim>\<open>interface{}\<close> variables of the source. A record is the nil
  interface, or a pointer of one of the two response types; the pointer itself may be nil
  (\<open>None\<close>), which Go does not identify with the nil interface.
\<close>

datatype record_iface =
    NilRecord
  | TopSQLSubResponse "payload option"
  | ResourceUsageRecord "payload option"

datatype client_iface =
    TopSQLPubSubClient handle
  | ResourceMeteringPubSubClient handle

datatype stream_iface =
    TopSQLPubSub_SubscribeClient handle
  | ResourceMeteringPubSub_SubscribeClient handle

record Scraper =
  ctx :: Context
  tlsConfig :: "tls_Config option"
  component :: Component

record backoffScrape =
  ctx :: Context
  tlsCfg :: "tls_Config option"
  address :: string
  component :: Component
  conn :: "handle option"
  client :: "client_iface option"
  stream :: "stream_iface option"
  firstWaitTime :: nat
  maxRetryTimes :: nat

section \<open>The outside world\<close>

text \<open>
  The remote side is an oracle: whether the \<open>k\<close>-th dial succeeds, whether the subscribe call on
  connection \<open>k\<close> succeeds, and what the \<open>j\<close>-th read of the stream of connection \<open>k\<close> delivers.
  The generated gRPC method \<^verbatim>\<open>Recv\<close> returns either a message and no error or no message and an
  error, so one read is a \<open>payload option\<close>.
\<close>

record env =
  dial_ok :: "nat \<Rightarrow> bool"
  subscribe_ok :: "handle \<Rightarrow> bool"
  recv_msg :: "handle \<Rightarrow> nat \<Rightarrow> payload option"

datatype transport = WithInsecure | WithTransportCredentials tls_Config

datatype event =
    EvDial handle string transport
  | EvSubscribe ComponentKind handle
  | EvRecv handle
  | EvClose handle

text \<open>
  The mutable part of the world: how many dials were made, how many reads each stream has
  served, how many backoff waits have gone by, and the input/output actions performed so far,
  the newest first.
\<close>

record world =
  ndials :: nat
  nreads :: "handle \<Rightarrow> nat"
  nwaits :: nat
  trace :: "event list"

definition world0 :: world where
  "world0 = \<lparr>ndials = 0, nreads = (\<lambda>_. 0), nwaits = 0, trace = []\<rparr>"

definition tlsOption :: "tls_Config option \<Rightarrow> transport" where
  "tlsOption tlsc =
     (case tlsc of None \<Rightarrow> WithInsecure | Some cfg \<Rightarrow> WithTransportCredentials cfg)"

definition dial :: "env \<Rightarrow> tls_Config option \<Rightarrow> string \<Rightarrow> world \<Rightarrow> handle option \<times> world" where
  "dial e tlsc addr w =
     (let k = ndials w;
          w' = w\<lparr>ndials := Suc k, trace := EvDial k addr (tlsOption tlsc) # trace w\<rparr>
      in (if dial_ok e k then Some k else None, w'))"

definition Subscribe :: "env \<Rightarrow> ComponentKind \<Rightarrow> handle \<Rightarrow> world \<Rightarrow> handle option \<times> world" where
  "Subscribe e knd c w =
     (if subscribe_ok e c then Some c else None, w\<lparr>trace := EvSubscribe knd c # trace w\<rparr>)"

definition Recv :: "env \<Rightarrow> handle \<Rightarrow> world \<Rightarrow> payload option \<times> world" where
  "Recv e s w =
     (recv_msg e s (nreads w s),
      w\<lparr>nreads := (nreads w)(s := Suc (nreads w s)), trace := EvRecv s # trace w\<rparr>)"

definition conn_Close :: "handle \<Rightarrow> world \<Rightarrow> world" where
  "conn_Close c w = w\<lparr>trace := EvClose c # trace w\<rparr>"

section \<open>The backoff executor\<close>

text \<open>
  Modelled from the spec: the function \<^verbatim>\<open>utils.WithRetryBackoff\<close>, which is called by
  \<^verbatim>\<open>backoffScrape\<close> and whose body is not part of the sources at hand. Following section 4.1 of
  the specification it calls the attempt function with index 0; a success ends the run at once
  with \<open>True\<close>; after a failure it stops with \<open>False\<close> when \<open>maxAttempts\<close> attempts have been made,
  otherwise it waits, returns \<open>False\<close> when the cancellation token fires during the wait, and
  goes on with the next index. The durations of the waits are not modelled. The result is the
  verdict, the number of calls made to the attempt function, the state left by the attempts and
  the number of waits gone by.
\<close>

function WithRetryBackoff_from ::
  "Context \<Rightarrow> nat \<Rightarrow> nat \<Rightarrow> (nat \<Rightarrow> 'a \<Rightarrow> bool \<times> 'a) \<Rightarrow> nat \<Rightarrow> 'a \<Rightarrow> nat \<Rightarrow> bool \<times> nat \<times> 'a \<times> nat"
where
  "WithRetryBackoff_from c maxAttempts initialWait attempt i a clk =
     (let r = attempt i a in
      if fst r then (True, Suc i, snd r, clk)
      else if maxAttempts \<le> Suc i then (False, Suc i, snd r, clk)
      else if fired c clk then (False, Suc i, snd r, Suc clk)
      else WithRetryBackoff_from c maxAttempts initialWait attempt (Suc i) (snd r) (Suc clk))"
  by pat_completeness auto
termination
  by (relation "measure (\<lambda>(c, maxAttempts, initialWait, attempt, i, a, clk). maxAttempts - i)") auto

declare WithRetryBackoff_from.simps [simp del]

definition WithRetryBackoff ::
  "Context \<Rightarrow> nat \<Rightarrow> nat \<Rightarrow> (nat \<Rightarrow> 'a \<Rightarrow> bool \<times> 'a) \<Rightarrow> 'a \<Rightarrow> nat \<Rightarrow> bool \<times> nat \<times> 'a \<times> nat" where
  "WithRetryBackoff c maxAttempts initialWait attempt a clk =
     WithRetryBackoff_from c maxAttempts initialWait attempt 0 a clk"

text \<open>
  The states an attempt function goes through when it is called with the indices
  \<open>0, 1, 2, \<dots>\<close> in turn, and the outcome of its call number \<open>j\<close> in that sequence.
\<close>

fun state_after :: "(nat \<Rightarrow> 'a \<Rightarrow> bool \<times> 'a) \<Rightarrow> nat \<Rightarrow> 'a \<Rightarrow> 'a" where
  "state_after f 0 a = a"
| "state_after f (Suc n) a = snd (f n (state_after f n a))"

definition outcome :: "(nat \<Rightarrow> 'a \<Rightarrow> bool \<times> 'a) \<Rightarrow> 'a \<Rightarrow> nat \<Rightarrow> bool" where
  "outcome f a j = fst (f j (state_after f j a))"

section \<open>The reconnecting stream\<close>

definition newBackoffScrape ::
  "Context \<Rightarrow> tls_Config option \<Rightarrow> string \<Rightarrow> Component \<Rightarrow> backoffScrape" where
  "newBackoffScrape c tlsc addr cmpt =
     \<lparr>ctx = c, tlsCfg = tlsc, address = addr, component = cmpt,
      conn = None, client = None, stream = None,
      firstWaitTime = 2 * 1000000000, maxRetryTimes = 8\<rparr>"

text \<open>
  The closure handed to the executor by \<^verbatim>\<open>backoffScrape\<close>. It works on the receiver, on the named
  result \<^verbatim>\<open>record\<close> and on the world.
\<close>

definition teardown :: "backoffScrape \<Rightarrow> world \<Rightarrow> backoffScrape \<times> world" where
  "teardown bo w =
     (case conn bo of
        Some c \<Rightarrow> (bo\<lparr>conn := None, client := None, stream := None\<rparr>, conn_Close c w)
      | None \<Rightarrow> (bo, w))"

definition attempt ::
  "env \<Rightarrow> nat \<Rightarrow> backoffScrape \<times> record_iface \<times> world \<Rightarrow> bool \<times> backoffScrape \<times> record_iface \<times> world"
where
  "attempt e retried st =
     (case st of (bo0, record, w0) \<Rightarrow>
      (case teardown bo0 w0 of (bo1, w1) \<Rightarrow>
       (case dial e (tlsCfg bo1) (address bo1) w1 of
          (None, w2) \<Rightarrow> (False, bo1, record, w2)
        | (Some c, w2) \<Rightarrow>
            (let bo2 = bo1\<lparr>conn := Some c\<rparr> in
             case Kind (component bo2) of
               ComponentTiDB \<Rightarrow>
                 (let bo3 = bo2\<lparr>client := Some (TopSQLPubSubClient c)\<rparr> in
                  case Subscribe e ComponentTiDB c w2 of
                    (None, w3) \<Rightarrow> (False, bo3, record, w3)
                  | (Some s, w3) \<Rightarrow>
                      (let bo4 = bo3\<lparr>stream := Some (TopSQLPubSub_SubscribeClient s)\<rparr> in
                       case Recv e s w3 of
                         (None, w4) \<Rightarrow> (False, bo4, TopSQLSubResponse None, w4)
                       | (Some p, w4) \<Rightarrow> (True, bo4, TopSQLSubResponse (Some p), w4)))
             | ComponentTiKV \<Rightarrow>
                 (let bo3 = bo2\<lparr>client := Some (ResourceMeteringPubSubClient c)\<rparr> in
                  case Subscribe e ComponentTiKV c w2 of
                    (None, w3) \<Rightarrow> (False, bo3, record, w3)
                  | (Some s, w3) \<Rightarrow>
                      (let bo4 = bo3\<lparr>stream := Some (ResourceMeteringPubSub_SubscribeClient s)\<rparr> in
                       case Recv e s w3 of
                         (None, w4) \<Rightarrow> (False, bo4, ResourceUsageRecord None, w4)
                       | (Some p, w4) \<Rightarrow> (True, bo4, ResourceUsageRecord (Some p), w4)))
             | ComponentOther _ \<Rightarrow> (True, bo2, record, w2)))))"

definition backoffScrape_run ::
  "env \<Rightarrow> backoffScrape \<Rightarrow> world \<Rightarrow> bool \<times> nat \<times> (backoffScrape \<times> record_iface \<times> world) \<times> nat" where
  "backoffScrape_run e bo w =
     WithRetryBackoff (ctx bo) (maxRetryTimes bo) (firstWaitTime bo) (attempt e)
       (bo, NilRecord, w) (nwaits w)"

definition backoffScrape :: "env \<Rightarrow> backoffScrape \<Rightarrow> world \<Rightarrow> record_iface \<times> backoffScrape \<times> world" where
  "backoffScrape e bo w =
     (case backoffScrape_run e bo w of
        (ok, calls, (bo', record, w'), clk) \<Rightarrow> (record, bo', w'\<lparr>nwaits := clk\<rparr>))"

definition scrape :: "env \<Rightarrow> backoffScrape \<Rightarrow> world \<Rightarrow> record_iface \<times> backoffScrape \<times> world" where
  "scrape e bo w =
     (case stream bo of
        None \<Rightarrow> backoffScrape e bo w
      | Some (TopSQLPubSub_SubscribeClient s) \<Rightarrow>
          (case Recv e s w of
             (Some p, w') \<Rightarrow> (TopSQLSubResponse (Some p), bo, w')
           | (None, w') \<Rightarrow> backoffScrape e bo w')
      | Some (ResourceMeteringPubSub_SubscribeClient s) \<Rightarrow>
          (case Recv e s w of
             (Some p, w') \<Rightarrow> (ResourceUsageRecord (Some p), bo, w')
           | (None, w') \<Rightarrow> backoffScrape e bo w'))"

definition scrapeTiDBRecord :: "env \<Rightarrow> backoffScrape \<Rightarrow> world \<Rightarrow> payload option \<times> backoffScrape \<times> world" where
  "scrapeTiDBRecord e bo w =
     (case scrape e bo w of
        (record, bo', w') \<Rightarrow>
          ((case record of TopSQLSubResponse res \<Rightarrow> res | _ \<Rightarrow> None), bo', w'))"

definition scrapeTiKVRecord :: "env \<Rightarrow> backoffScrape \<Rightarrow> world \<Rightarrow> payload option \<times> backoffScrape \<times> world" where
  "scrapeTiKVRecord e bo w =
     (case scrape e bo w of
        (record, bo', w') \<Rightarrow>
          ((case record of ResourceUsageRecord res \<Rightarrow> res | _ \<Rightarrow> None), bo', w'))"

definition close :: "backoffScrape \<Rightarrow> world \<Rightarrow> backoffScrape \<times> world" where
  "close bo w =
     (case conn bo of
        Some c \<Rightarrow> (bo\<lparr>conn := None, client := None, stream := None\<rparr>, conn_Close c w)
      | None \<Rightarrow> (bo, w))"

section \<open>The scraper\<close>

text \<open>
  The two drain loops run for as long as records arrive, so they are partial: \<open>None\<close> is a
  loop that never returns. Logging and the once-per-second throughput report have no
  influence on the control flow and are left out. \<^verbatim>\<open>NewScraper\<close> builds the record below with a
  token derived from its argument; \<^verbatim>\<open>Close\<close> and \<^verbatim>\<open>IsDown\<close> fire and poll that token from
  other goroutines, which the firing time carried by \<open>Context\<close> stands for.
\<close>

definition NewScraper :: "Context \<Rightarrow> Component \<Rightarrow> tls_Config option \<Rightarrow> Scraper" where
  "NewScraper c cmpt tlsc = \<lparr>Scraper.ctx = c, tlsConfig = tlsc, Scraper.component = cmpt\<rparr>"

partial_function (option) scrapeTiDB_loop ::
  "env \<Rightarrow> backoffScrape \<Rightarrow> world \<Rightarrow> (backoffScrape \<times> world) option" where
  "scrapeTiDB_loop e bo w =
     (case scrapeTiDBRecord e bo w of
        (None, bo', w') \<Rightarrow> Some (bo', w')
      | (Some r, bo', w') \<Rightarrow> scrapeTiDB_loop e bo' w')"

partial_function (option) scrapeTiKV_loop ::
  "env \<Rightarrow> backoffScrape \<Rightarrow> world \<Rightarrow> (backoffScrape \<times> world) option" where
  "scrapeTiKV_loop e bo w =
     (case scrapeTiKVRecord e bo w of
        (None, bo', w') \<Rightarrow> Some (bo', w')
      | (Some r, bo', w') \<Rightarrow> scrapeTiKV_loop e bo' w')"

definition scrapeTiDB :: "env \<Rightarrow> Scraper \<Rightarrow> world \<Rightarrow> (backoffScrape \<times> world) option" where
  "scrapeTiDB e s w =
     (let bo = newBackoffScrape (Scraper.ctx s) (tlsConfig s) (Addr (Scraper.component s))
                 (Scraper.component s)
      in case scrapeTiDB_loop e bo w of
           None \<Rightarrow> None
         | Some (bo', w') \<Rightarrow> Some (close bo' w'))"

definition scrapeTiKV :: "env \<Rightarrow> Scraper \<Rightarrow> world \<Rightarrow> (backoffScrape \<times> world) option" where
  "scrapeTiKV e s w =
     (let bo = newBackoffScrape (Scraper.ctx s) (tlsConfig s) (Addr (Scraper.component s))
                 (Scraper.component s)
      in case scrapeTiKV_loop e bo w of
           None \<Rightarrow> None
         | Some (bo', w') \<Rightarrow> Some (close bo' w'))"

datatype panic = Panic string

definition Run :: "env \<Rightarrow> Scraper \<Rightarrow> world \<Rightarrow> (panic + backoffScrape \<times> world) option" where
  "Run e s w =
     (case Kind (Scraper.component s) of
        ComponentTiDB \<Rightarrow> map_option Inr (scrapeTiDB e s w)
      | ComponentTiKV \<Rightarrow> map_option Inr (scrapeTiKV e s w)
      | ComponentOther _ \<Rightarrow> Some (Inl (Panic ''unexpected scrape target'')))"

section \<open>Predicates used in the statements\<close>

definition all_absent :: "backoffScrape \<Rightarrow> bool" where
  "all_absent bo = (conn bo = None \<and> client bo = None \<and> stream bo = None)"

definition all_present :: "backoffScrape \<Rightarrow> bool" where
  "all_present bo = (conn bo \<noteq> None \<and> client bo \<noteq> None \<and> stream bo \<noteq> None)"

definition all_or_none :: "backoffScrape \<Rightarrow> bool" where
  "all_or_none bo = (all_present bo \<or> all_absent bo)"

text \<open>
  What the code keeps between operations: a stream handle only together with a subscription
  handle, and a subscription handle only together with a transport connection.
\<close>

definition conn_state_inv :: "backoffScrape \<Rightarrow> bool" where
  "conn_state_inv bo =
     ((stream bo \<noteq> None \<longrightarrow> client bo \<noteq> None) \<and> (client bo \<noteq> None \<longrightarrow> conn bo \<noteq> None))"

text \<open>A record that carries a message: a non-nil pointer of either response type.\<close>

fun is_message :: "record_iface \<Rightarrow> bool" where
  "is_message (TopSQLSubResponse (Some p)) = True"
| "is_message (ResourceUsageRecord (Some p)) = True"
| "is_message _ = False"

text \<open>The type of a record, and of a stream handle, agrees with a target kind.\<close>

definition kind_matches :: "ComponentKind \<Rightarrow> record_iface \<Rightarrow> bool" where
  "kind_matches knd r =
     (case r of
        NilRecord \<Rightarrow> True
      | TopSQLSubResponse _ \<Rightarrow> knd = ComponentTiDB
      | ResourceUsageRecord _ \<Rightarrow> knd = ComponentTiKV)"

definition stream_matches :: "ComponentKind \<Rightarrow> stream_iface option \<Rightarrow> bool" where
  "stream_matches knd st =
     (case st of
        None \<Rightarrow> True
      | Some (TopSQLPubSub_SubscribeClient _) \<Rightarrow> knd = ComponentTiDB
      | Some (ResourceMeteringPubSub_SubscribeClient _) \<Rightarrow> knd = ComponentTiKV)"

text \<open>The handle of the stream held by the receiver, of either kind.\<close>

definition stream_handle :: "backoffScrape \<Rightarrow> handle option" where
  "stream_handle bo =
     (case stream bo of
        None \<Rightarrow> None
      | Some (TopSQLPubSub_SubscribeClient s) \<Rightarrow> Some s
      | Some (ResourceMeteringPubSub_SubscribeClient s) \<Rightarrow> Some s)"

text \<open>
  The world in which \<^verbatim>\<open>scrape\<close> enters \<^verbatim>\<open>backoffScrape\<close>: at once when there is no stream,
  after the read when the read of the live stream delivers nothing, and not at all when that
  read delivers a message.
\<close>

definition reconnect_entry :: "env \<Rightarrow> backoffScrape \<Rightarrow> world \<Rightarrow> world option" where
  "reconnect_entry e bo w =
     (case stream_handle bo of
        None \<Rightarrow> Some w
      | Some s \<Rightarrow> (case Recv e s w of (None, w') \<Rightarrow> Some w' | (Some p, w') \<Rightarrow> None))"

text \<open>
  The input/output actions of one attempt that starts with receiver \<open>bo\<close> in world \<open>w\<close>, the
  newest first. In the order in which they happen: the close of the connection still held, the
  dial, and after a successful dial for a recognised kind the subscribe call of that kind on the
  new connection and, when it succeeds, one read of the new stream.
\<close>

definition attempt_events :: "env \<Rightarrow> backoffScrape \<Rightarrow> world \<Rightarrow> event list" where
  "attempt_events e bo w =
     (if dial_ok e (ndials w) \<and>
         (Kind (component bo) = ComponentTiDB \<or> Kind (component bo) = ComponentTiKV)
      then (if subscribe_ok e (ndials w) then [EvRecv (ndials w)] else []) @
           [EvSubscribe (Kind (component bo)) (ndials w)]
      else []) @
     [EvDial (ndials w) (address bo) (tlsOption (tlsCfg bo))] @
     (case conn bo of Some c \<Rightarrow> [EvClose c] | None \<Rightarrow> [])"

section \<open>Concrete targets and worlds\<close>

definition tidb :: Component where
  "tidb = \<lparr>Kind = ComponentTiDB, Addr = ''tidb:10080''\<rparr>"

definition tikv :: Component where
  "tikv = \<lparr>Kind = ComponentTiKV, Addr = ''tikv:20160''\<rparr>"

definition pd :: Component where
  "pd = \<lparr>Kind = ComponentOther ''pd'', Addr = ''pd:2379''\<rparr>"

text \<open>A remote side that accepts everything; read \<open>j\<close> of stream \<open>s\<close> delivers \<open>10 * s + j\<close>.\<close>

definition e_all_ok :: env where
  "e_all_ok =
     \<lparr>dial_ok = (\<lambda>_. True), subscribe_ok = (\<lambda>_. True), recv_msg = (\<lambda>s j. Some (10 * s + j))\<rparr>"

text \<open>A remote side that accepts connections and refuses every subscription.\<close>

definition e_subscribe_fails :: env where
  "e_subscribe_fails =
     \<lparr>dial_ok = (\<lambda>_. True), subscribe_ok = (\<lambda>_. False), recv_msg = (\<lambda>_ _. None)\<rparr>"

text \<open>A remote side that refuses the first three dials and accepts everything afterwards.\<close>

definition e_recovers :: env where
  "e_recovers =
     \<lparr>dial_ok = (\<lambda>k. 3 \<le> k), subscribe_ok = (\<lambda>_. True), recv_msg = (\<lambda>s j. Some (10 * s + j))\<rparr>"

text \<open>A remote side whose streams deliver one message each and then end.\<close>

definition e_one_message :: env where
  "e_one_message =
     \<lparr>dial_ok = (\<lambda>_. True), subscribe_ok = (\<lambda>_. True),
      recv_msg = (\<lambda>s j. if j = 0 then Some (10 * s) else None)\<rparr>"

text \<open>A remote side that cannot be reached.\<close>

definition e_unreachable :: env where
  "e_unreachable =
     \<lparr>dial_ok = (\<lambda>_. False), subscribe_ok = (\<lambda>_. False), recv_msg = (\<lambda>_ _. None)\<rparr>"

definition bo_tidb :: backoffScrape where
  "bo_tidb = newBackoffScrape None None ''tidb:10080'' tidb"

definition bo_tikv :: backoffScrape where
  "bo_tikv = newBackoffScrape None None ''tikv:20160'' tikv"

definition bo_pd :: backoffScrape where
  "bo_pd = newBackoffScrape None None ''pd:2379'' pd"

text \<open>The receiver and the world after one record was drained from a one-message stream.\<close>

definition bo_streaming :: backoffScrape where
  "bo_streaming = fst (snd (scrape e_one_message bo_tidb world0))"

definition w_streaming :: world where
  "w_streaming = snd (snd (scrape e_one_message bo_tidb world0))"

definition scraper_pd :: Scraper where
  "scraper_pd = NewScraper None pd None"

section \<open>Unfolding the operations\<close>

lemmas attempt_unfold =
  attempt_def teardown_def dial_def tlsOption_def Subscribe_def Recv_def conn_Close_def Let_def

lemmas run_unfold =
  scrape_def backoffScrape_def backoffScrape_run_def WithRetryBackoff_def
  WithRetryBackoff_from.simps attempt_unfold

lemmas example_unfold =
  newBackoffScrape_def tidb_def tikv_def pd_def bo_tidb_def bo_tikv_def bo_pd_def
  scraper_pd_def NewScraper_def world0_def bo_streaming_def w_streaming_def
  e_all_ok_def e_subscribe_fails_def e_unreachable_def e_recovers_def e_one_message_def

section \<open>Closing the reconnecting stream\<close>

text \<open>
  Claim C5. \<^verbatim>\<open>close()\<close> is idempotent. A populated connection is released once (one close
  event for it enters the trace) and the fields are cleared; a second \<^verbatim>\<open>close()\<close> right after
  the first changes neither the receiver nor the world, so nothing is released twice, and no
  call can fail. After \<^verbatim>\<open>close()\<close> the connection is absent, and in every state that satisfies
  \<open>conn_state_inv\<close> all three fields are absent.
\<close>

theorem close_idempotent:
  "(case close bo w of
      (bo1, w1) \<Rightarrow>
        close bo1 w1 = (bo1, w1) \<and> conn bo1 = None \<and>
        (conn_state_inv bo \<longrightarrow> all_absent bo1) \<and>
        (case conn bo of
           Some c \<Rightarrow> trace w1 = EvClose c # trace w
         | None \<Rightarrow> bo1 = bo \<and> w1 = w))"
  by (auto simp: close_def conn_Close_def conn_state_inv_def all_absent_def split: option.splits)

theorem close_idempotent_witness:
  "conn_state_inv (fst (snd (scrape e_all_ok bo_tidb world0))) \<and>
   conn (fst (snd (scrape e_all_ok bo_tidb world0))) = Some 0 \<and>
   (case close (fst (snd (scrape e_all_ok bo_tidb world0))) world0 of
      (bo1, w1) \<Rightarrow> close bo1 w1 = (bo1, w1) \<and> all_absent bo1 \<and> trace w1 = [EvClose 0])"
  using close_idempotent [of "fst (snd (scrape e_all_ok bo_tidb world0))" world0]
  by (auto simp add: run_unfold example_unfold conn_state_inv_def split: prod.splits)

section \<open>Dispatch on the target kind\<close>

text \<open>
  Claim C8. For a scraper whose target has a kind other than TiDB and TiKV, \<^verbatim>\<open>Run()\<close> panics
  at the dispatch: its result is the panic and not the final state of a drain loop, whatever
  the remote side would answer; nothing retries or recovers it.
\<close>

theorem Run_unrecognized_kind_panics:
  "Kind (Scraper.component s) \<noteq> ComponentTiDB \<Longrightarrow>
   Kind (Scraper.component s) \<noteq> ComponentTiKV \<Longrightarrow>
     Run e s w = Some (Inl (Panic ''unexpected scrape target''))"
  by (cases "Kind (Scraper.component s)") (simp_all add: Run_def)

theorem Run_unrecognized_kind_panics_witness:
  "Kind (Scraper.component scraper_pd) \<noteq> ComponentTiDB \<and>
   Kind (Scraper.component scraper_pd) \<noteq> ComponentTiKV \<and>
   Run e_all_ok scraper_pd world0 = Some (Inl (Panic ''unexpected scrape target''))"
proof -
  have h1: "Kind (Scraper.component scraper_pd) \<noteq> ComponentTiDB"
    by (simp add: scraper_pd_def NewScraper_def pd_def)
  have h2: "Kind (Scraper.component scraper_pd) \<noteq> ComponentTiKV"
    by (simp add: scraper_pd_def NewScraper_def pd_def)
  show ?thesis
    using h1 h2 Run_unrecognized_kind_panics [OF h1 h2, of e_all_ok world0] by simp
qed

section \<open>Runs of the executor\<close>

lemma wrb_from_unfold:
  "WithRetryBackoff_from c m iw f i a clk =
     (if fst (f i a) then (True, Suc i, snd (f i a), clk)
      else if m \<le> Suc i then (False, Suc i, snd (f i a), clk)
      else if fired c clk then (False, Suc i, snd (f i a), Suc clk)
      else WithRetryBackoff_from c m iw f (Suc i) (snd (f i a)) (Suc clk))"
  by (subst WithRetryBackoff_from.simps) (simp add: Let_def)

lemma wrb_from_state:
  "a = state_after f i a0 \<Longrightarrow>
     (case WithRetryBackoff_from c m iw f i a clk of
        (ok, calls, a', clk') \<Rightarrow>
          i < calls \<and> (i < m \<longrightarrow> calls \<le> m) \<and> a' = state_after f calls a0 \<and>
          ok = outcome f a0 (calls - 1) \<and> (\<forall>j. i \<le> j \<and> j < calls - 1 \<longrightarrow> \<not> outcome f a0 j))"
proof (induction c m iw f i a clk rule: WithRetryBackoff_from.induct)
  case (1 c m iw f i a clk)
  show ?case
  proof (cases "fst (f i a) \<or> m \<le> Suc i \<or> fired c clk")
    case True
    then show ?thesis using "1.prems"
      by (subst wrb_from_unfold) (auto simp: outcome_def)
  next
    case False
    then have nf: "\<not> fst (f i a)" and nm: "\<not> m \<le> Suc i" and nfire: "\<not> fired c clk" by simp_all
    have st: "snd (f i a) = state_after f (Suc i) a0" using "1.prems" by simp
    have oi: "\<not> outcome f a0 i" using nf "1.prems" by (simp add: outcome_def)
    have eq: "WithRetryBackoff_from c m iw f i a clk =
              WithRetryBackoff_from c m iw f (Suc i) (snd (f i a)) (Suc clk)"
      using nf nm nfire by (subst wrb_from_unfold) simp
    from "1.IH"[OF refl nf nm nfire st] oi nm
    show ?thesis unfolding eq
      by (auto split: prod.splits) (metis Suc_leI le_neq_implies_less)
  qed
qed

lemma wrb_from_stops_at:
  "a = state_after f i a0 \<Longrightarrow> i \<le> j \<Longrightarrow>
   (\<forall>j'. i \<le> j' \<and> j' < j \<longrightarrow>
      \<not> outcome f a0 j' \<and> Suc j' < m \<and> \<not> fired c (clk + (j' - i))) \<Longrightarrow>
   outcome f a0 j \<or> m \<le> Suc j \<or> fired c (clk + (j - i)) \<Longrightarrow>
     WithRetryBackoff_from c m iw f i a clk =
       (outcome f a0 j, Suc j, state_after f (Suc j) a0,
        if outcome f a0 j \<or> m \<le> Suc j then clk + (j - i) else Suc (clk + (j - i)))"
proof (induction c m iw f i a clk rule: WithRetryBackoff_from.induct)
  case (1 c m iw f i a clk)
  note a_eq = "1.prems"(1)
  show ?case
  proof (cases "i = j")
    case True
    with "1.prems"(4) a_eq show ?thesis
      by (subst wrb_from_unfold) (auto simp: outcome_def)
  next
    case False
    with "1.prems"(2) have lt: "i < j" by simp
    with "1.prems"(3) have "\<not> outcome f a0 i \<and> Suc i < m \<and> \<not> fired c (clk + (i - i))"
      by blast
    then have nf: "\<not> fst (f i a)" and nm: "\<not> m \<le> Suc i" and nfire: "\<not> fired c clk"
      using a_eq by (simp_all add: outcome_def)
    have st: "snd (f i a) = state_after f (Suc i) a0" using a_eq by simp
    have le: "Suc i \<le> j" using lt by simp
    have mid: "\<forall>j'. Suc i \<le> j' \<and> j' < j \<longrightarrow>
                 \<not> outcome f a0 j' \<and> Suc j' < m \<and> \<not> fired c (Suc clk + (j' - Suc i))"
    proof (intro allI impI)
      fix j' assume h: "Suc i \<le> j' \<and> j' < j"
      then have "i \<le> j' \<and> j' < j" by simp
      with "1.prems"(3) have *: "\<not> outcome f a0 j' \<and> Suc j' < m \<and> \<not> fired c (clk + (j' - i))"
        by blast
      have e: "Suc clk + (j' - Suc i) = clk + (j' - i)" using h by arith
      show "\<not> outcome f a0 j' \<and> Suc j' < m \<and> \<not> fired c (Suc clk + (j' - Suc i))"
        unfolding e by (rule *)
    qed
    have clk_eq: "Suc clk + (j - Suc i) = clk + (j - i)" using lt by arith
    have last: "outcome f a0 j \<or> m \<le> Suc j \<or> fired c (Suc clk + (j - Suc i))"
      unfolding clk_eq by (rule "1.prems"(4))
    have eq: "WithRetryBackoff_from c m iw f i a clk =
              WithRetryBackoff_from c m iw f (Suc i) (snd (f i a)) (Suc clk)"
      using nf nm nfire by (subst wrb_from_unfold) simp
    show ?thesis
      unfolding eq "1.IH"[OF refl nf nm nfire st le mid last] clk_eq by (rule refl)
  qed
qed

lemma wrb_stops_at:
  "(\<forall>j'. j' < j \<longrightarrow> \<not> outcome f a j' \<and> Suc j' < m \<and> \<not> fired c (clk + j')) \<Longrightarrow>
   outcome f a j \<or> m \<le> Suc j \<or> fired c (clk + j) \<Longrightarrow>
     WithRetryBackoff c m iw f a clk =
       (outcome f a j, Suc j, state_after f (Suc j) a,
        if outcome f a j \<or> m \<le> Suc j then clk + j else Suc (clk + j))"
  unfolding WithRetryBackoff_def
  using wrb_from_stops_at[where a = a and f = f and i = 0 and ?a0.0 = a and j = j and m = m
      and c = c and clk = clk and iw = iw] by simp

lemma wrb_state:
  "(case WithRetryBackoff c m iw f a clk of
      (ok, calls, a', clk') \<Rightarrow>
        0 < calls \<and> (0 < m \<longrightarrow> calls \<le> m) \<and> a' = state_after f calls a \<and>
        ok = outcome f a (calls - 1) \<and> (\<forall>j. j < calls - 1 \<longrightarrow> \<not> outcome f a j))"
  unfolding WithRetryBackoff_def
  using wrb_from_state[where a = a and f = f and i = 0 and ?a0.0 = a and c = c and m = m
      and iw = iw and clk = clk] by simp

lemma executor_exhausted:
  assumes "\<forall>j<maxAttempts. \<not> outcome f a j" and "0 < maxAttempts"
    and "\<forall>t<maxAttempts - 1. \<not> fired c (clk + t)"
  shows "WithRetryBackoff c maxAttempts initialWait f a clk =
           (False, maxAttempts, state_after f maxAttempts a, clk + (maxAttempts - 1))"
proof -
  have "\<forall>j'. j' < maxAttempts - 1 \<longrightarrow>
          \<not> outcome f a j' \<and> Suc j' < maxAttempts \<and> \<not> fired c (clk + j')"
    using assms by (auto simp: less_diff_conv)
  moreover have "maxAttempts \<le> Suc (maxAttempts - 1)" by simp
  moreover have "\<not> outcome f a (maxAttempts - 1)" using assms(1,2) by simp
  ultimately show ?thesis
    using wrb_stops_at[where j = "maxAttempts - 1" and f = f and a = a and m = maxAttempts
        and c = c and clk = clk and iw = initialWait] assms(2) by simp
qed

lemma unreachable_fails: "\<not> outcome (attempt e_unreachable) a j"
  by (auto simp: outcome_def attempt_unfold e_unreachable_def split: prod.splits option.splits)

text \<open>
  Claim C3. When the first call of the attempt function succeeds, the executor returns \<open>True\<close>
  at once, after this one call and without a wait. When calls \<open>0, \<dots>, n - 1\<close> fail, call \<open>n\<close>
  succeeds, \<open>n\<close> is below \<open>maxAttempts\<close> and the \<open>n\<close> waits in between run to their end, the
  executor returns \<open>True\<close> after exactly \<open>n + 1\<close> calls and \<open>n\<close> waits.
\<close>

theorem executor_succeeds_after_failures:
  "(outcome f a 0 \<longrightarrow>
      WithRetryBackoff c maxAttempts initialWait f a clk = (True, 1, state_after f 1 a, clk)) \<and>
   ((\<forall>j<n. \<not> outcome f a j) \<and> outcome f a n \<and> n < maxAttempts \<and>
    (\<forall>t<n. \<not> fired c (clk + t)) \<longrightarrow>
      WithRetryBackoff c maxAttempts initialWait f a clk =
        (True, Suc n, state_after f (Suc n) a, clk + n))"
proof (intro conjI impI)
  assume "outcome f a 0"
  then show "WithRetryBackoff c maxAttempts initialWait f a clk = (True, 1, state_after f 1 a, clk)"
    using wrb_stops_at[where j = 0 and f = f and a = a and m = maxAttempts and c = c
        and clk = clk and iw = initialWait] by simp
next
  assume "(\<forall>j<n. \<not> outcome f a j) \<and> outcome f a n \<and> n < maxAttempts \<and>
          (\<forall>t<n. \<not> fired c (clk + t))"
  then show "WithRetryBackoff c maxAttempts initialWait f a clk =
               (True, Suc n, state_after f (Suc n) a, clk + n)"
    using wrb_stops_at[where j = n and f = f and a = a and m = maxAttempts and c = c
        and clk = clk and iw = initialWait] by auto
qed

theorem executor_succeeds_after_failures_witness:
  "outcome (attempt e_recovers) (bo_tidb, NilRecord, world0) 3 \<and> (3::nat) < 8 \<and>
   (case WithRetryBackoff None 8 2000000000 (attempt e_recovers) (bo_tidb, NilRecord, world0) 0 of
      (ok, calls, st, clk) \<Rightarrow> ok \<and> calls = 4 \<and> clk = 3)"
proof -
  have o0: "\<not> outcome (attempt e_recovers) (bo_tidb, NilRecord, world0) 0"
    by (simp add: outcome_def attempt_unfold example_unfold)
  have o1: "\<not> outcome (attempt e_recovers) (bo_tidb, NilRecord, world0) (Suc 0)"
    by (simp add: outcome_def attempt_unfold example_unfold)
  have o2: "\<not> outcome (attempt e_recovers) (bo_tidb, NilRecord, world0) (Suc (Suc 0))"
    by (simp add: outcome_def attempt_unfold example_unfold)
  have "outcome (attempt e_recovers) (bo_tidb, NilRecord, world0) (Suc (Suc (Suc 0)))"
    by (simp add: outcome_def attempt_unfold example_unfold)
  then have o3: "outcome (attempt e_recovers) (bo_tidb, NilRecord, world0) 3"
    by (simp add: numeral_3_eq_3)
  have fl: "\<forall>j<3. \<not> outcome (attempt e_recovers) (bo_tidb, NilRecord, world0) j"
    using o0 o1 o2 by (simp add: numeral_3_eq_3 All_less_Suc)
  have lt: "(3::nat) < 8" by simp
  have nc: "\<forall>t<3. \<not> fired None (0 + t)" by (simp add: fired_def)
  show ?thesis
    using executor_succeeds_after_failures
      [where f = "attempt e_recovers" and a = "(bo_tidb, NilRecord, world0)" and n = 3
         and maxAttempts = 8 and c = None and clk = 0 and initialWait = 2000000000]
      fl o3 lt nc
    by simp
qed

text \<open>
  Claim C6. When calls \<open>0, \<dots>, k\<close> of the attempt function fail, further attempts are left,
  the first \<open>k\<close> waits run to their end and the cancellation token fires during the wait that
  follows call \<open>k\<close>, the executor returns \<open>False\<close> after exactly \<open>k + 1\<close> calls: the attempt
  function is not invoked again. With \<open>k = 1\<close> the token fires between the second and the
  third call, and the third call never happens.
\<close>

theorem executor_cancelled_in_wait:
  assumes "\<forall>j\<le>k. \<not> outcome f a j" and "Suc k < maxAttempts"
    and "\<forall>t<k. \<not> fired c (clk + t)" and "fired c (clk + k)"
  shows "WithRetryBackoff c maxAttempts initialWait f a clk =
           (False, Suc k, state_after f (Suc k) a, Suc (clk + k))"
  using wrb_stops_at[where j = k and f = f and a = a and m = maxAttempts and c = c
      and clk = clk and iw = initialWait] assms by auto

theorem executor_cancelled_in_wait_witness:
  "Suc 1 < (8::nat) \<and> fired (Some 1) (0 + 1) \<and>
   (case WithRetryBackoff (Some 1) 8 2000000000 (attempt e_unreachable) (bo_tidb, NilRecord, world0) 0 of
      (ok, calls, st, clk) \<Rightarrow> \<not> ok \<and> calls = 2 \<and> clk = 2)"
proof -
  have fl: "\<forall>j\<le>1. \<not> outcome (attempt e_unreachable) (bo_tidb, NilRecord, world0) j"
    by (simp add: unreachable_fails)
  have lt: "Suc 1 < (8::nat)" by simp
  have nc: "\<forall>t<1. \<not> fired (Some 1) (0 + t)" by (simp add: fired_def)
  have fi: "fired (Some 1) (0 + 1)" by (simp add: fired_def)
  show ?thesis
    using executor_cancelled_in_wait[OF fl lt nc fi, of 2000000000] fi by simp
qed

section \<open>Single attempts\<close>

lemma state_after_inv:
  "(\<And>j a. P a \<Longrightarrow> P (snd (f j a))) \<Longrightarrow> P a \<Longrightarrow> P (state_after f n a)"
  by (induction n) simp_all

lemma attempt_inv:
  "attempt e i (bo, r, w) = (ok, bo', r', w') \<Longrightarrow> conn_state_inv bo \<Longrightarrow> conn_state_inv bo'"
  by (auto simp: attempt_unfold conn_state_inv_def split: option.splits ComponentKind.splits if_splits)

lemma attempt_record:
  "attempt e i (bo, r, w) = (ok, bo', r', w') \<Longrightarrow> conn_state_inv bo \<Longrightarrow>
     (if ok then (is_message r' \<and> all_present bo') \<or> r' = r
      else r' = r \<or> \<not> is_message r')"
  by (auto simp: attempt_unfold conn_state_inv_def all_present_def split: option.splits ComponentKind.splits if_splits)

lemma attempt_fail_record:
  "attempt e i (bo, r, w) = (False, bo', r', w') \<Longrightarrow> \<not> is_message r \<Longrightarrow> \<not> is_message r'"
  by (auto simp: attempt_unfold split: option.splits ComponentKind.splits if_splits)

lemma attempt_kind:
  "attempt e i (bo, r, w) = (ok, bo', r', w') \<Longrightarrow>
   stream_matches (Kind (component bo)) (stream bo) \<Longrightarrow> kind_matches (Kind (component bo)) r \<Longrightarrow>
     component bo' = component bo \<and> stream_matches (Kind (component bo)) (stream bo') \<and>
     kind_matches (Kind (component bo)) r'"
  by (auto simp: attempt_unfold stream_matches_def kind_matches_def
      split: option.splits ComponentKind.splits if_splits)

lemma attempt_trace:
  "attempt e i (bo, r, w) = (ok, bo', r', w') \<Longrightarrow>
     ndials w' = Suc (ndials w) \<and> nwaits w' = nwaits w \<and>
     (\<exists>evs. trace w' =
              evs @ EvDial (ndials w) (address bo) (tlsOption (tlsCfg bo)) #
                (case conn bo of Some c \<Rightarrow> [EvClose c] | None \<Rightarrow> []) @ trace w \<and>
            set evs \<subseteq> {EvSubscribe (Kind (component bo)) (ndials w), EvRecv (ndials w)}) \<and>
     (\<forall>h. stream_handle bo' = Some h \<longrightarrow>
            h = ndials w \<or> (conn bo = None \<and> stream_handle bo = Some h))"
  by (auto simp: attempt_def teardown_def dial_def Subscribe_def Recv_def conn_Close_def Let_def
       stream_handle_def split: option.splits ComponentKind.splits if_splits)

lemma attempt_clears:
  "attempt e i (bo, r, w) = (ok, bo', r', w') \<Longrightarrow> conn bo = Some c \<Longrightarrow> \<not> dial_ok e (ndials w) \<Longrightarrow>
     \<not> ok \<and> all_absent bo'"
  by (auto simp: attempt_unfold all_absent_def split: option.splits ComponentKind.splits if_splits)

section \<open>The connection state between operations\<close>

lemma backoffScrape_run_state:
  "(case backoffScrape_run e bo w of
      (ok, calls, st, clk) \<Rightarrow>
        0 < calls \<and> (0 < maxRetryTimes bo \<longrightarrow> calls \<le> maxRetryTimes bo) \<and>
        st = state_after (attempt e) calls (bo, NilRecord, w) \<and>
        ok = outcome (attempt e) (bo, NilRecord, w) (calls - 1) \<and>
        (\<forall>j. j < calls - 1 \<longrightarrow> \<not> outcome (attempt e) (bo, NilRecord, w) j))"
  unfolding backoffScrape_run_def by (rule wrb_state)

lemma scrape_reconnect:
  "reconnect_entry e bo w = Some w1 \<Longrightarrow> scrape e bo w = backoffScrape e bo w1"
  by (auto simp: reconnect_entry_def scrape_def stream_handle_def
      split: option.splits stream_iface.splits prod.splits)

lemma scrape_live:
  "reconnect_entry e bo w = None \<Longrightarrow>
     (case scrape e bo w of (r, bo', w') \<Rightarrow> is_message r \<and> bo' = bo \<and> stream bo \<noteq> None)"
  by (auto simp: reconnect_entry_def scrape_def stream_handle_def
      split: option.splits stream_iface.splits prod.splits)

lemma failing_prefix_inv:
  "conn_state_inv bo \<Longrightarrow> \<not> is_message r \<Longrightarrow> \<forall>j<n. \<not> outcome (attempt e) (bo, r, w) j \<Longrightarrow>
     (case state_after (attempt e) n (bo, r, w) of
        (bo', r', w') \<Rightarrow> conn_state_inv bo' \<and> \<not> is_message r')"
proof (induction n)
  case 0
  then show ?case by simp
next
  case (Suc n)
  obtain bo1 r1 w1 where st: "state_after (attempt e) n (bo, r, w) = (bo1, r1, w1)"
    by (cases "state_after (attempt e) n (bo, r, w)") auto
  from Suc have ih: "conn_state_inv bo1 \<and> \<not> is_message r1" using st by simp
  obtain ok bo2 r2 w2 where at: "attempt e n (bo1, r1, w1) = (ok, bo2, r2, w2)"
    by (cases "attempt e n (bo1, r1, w1)") auto
  from Suc.prems(3) have "\<not> outcome (attempt e) (bo, r, w) n" by simp
  then have nok: "\<not> ok" using st at by (simp add: outcome_def)
  from attempt_inv[OF at] ih have "conn_state_inv bo2" by simp
  moreover from attempt_fail_record[where e = e and i = n and bo = bo1 and r = r1 and w = w1
      and bo' = bo2 and r' = r2 and w' = w2] at nok ih have "\<not> is_message r2"
    by simp
  ultimately show ?case using st at by simp
qed

lemma backoffScrape_inv:
  assumes inv: "conn_state_inv bo"
  shows "(case backoffScrape e bo w of
            (r, bo', w') \<Rightarrow> conn_state_inv bo' \<and> (is_message r \<longrightarrow> all_present bo'))"
proof -
  obtain ok calls st clk where run: "backoffScrape_run e bo w = (ok, calls, st, clk)"
    by (cases "backoffScrape_run e bo w") auto
  from backoffScrape_run_state[where e = e and bo = bo and w = w] run
  have pos: "0 < calls" and st: "st = state_after (attempt e) calls (bo, NilRecord, w)"
    and pre: "\<forall>j. j < calls - 1 \<longrightarrow> \<not> outcome (attempt e) (bo, NilRecord, w) j"
    by simp_all
  obtain n where n: "calls = Suc n" using pos by (cases calls) auto
  obtain bo1 r1 w1 where s1: "state_after (attempt e) n (bo, NilRecord, w) = (bo1, r1, w1)"
    by (cases "state_after (attempt e) n (bo, NilRecord, w)") auto
  from failing_prefix_inv[OF inv, where r = NilRecord and n = n and e = e and w = w] pre n s1
  have ih: "conn_state_inv bo1" "\<not> is_message r1" by simp_all
  obtain ok2 bo2 r2 w2 where at: "attempt e n (bo1, r1, w1) = (ok2, bo2, r2, w2)"
    by (cases "attempt e n (bo1, r1, w1)") auto
  have st2: "st = (bo2, r2, w2)" using st n s1 at by simp
  from attempt_inv[OF at ih(1)] have i2: "conn_state_inv bo2" .
  from attempt_record[OF at ih(1)] ih(2) have "is_message r2 \<longrightarrow> all_present bo2"
    by (auto split: if_splits)
  with i2 show ?thesis using run st2 by (simp add: backoffScrape_def)
qed

lemma scrape_inv:
  assumes inv: "conn_state_inv bo"
  shows "(case scrape e bo w of
            (r, bo', w') \<Rightarrow> conn_state_inv bo' \<and> (is_message r \<longrightarrow> all_present bo'))"
proof (cases "reconnect_entry e bo w")
  case None
  from scrape_live[OF None] inv show ?thesis
    by (auto simp: conn_state_inv_def all_present_def split: prod.splits)
next
  case (Some w1)
  show ?thesis unfolding scrape_reconnect[OF Some] by (rule backoffScrape_inv[OF inv])
qed

text \<open>
  Claim C1, as amended. All three fields are absent after construction and after \<^verbatim>\<open>close()\<close>.
  Every completed call of \<^verbatim>\<open>scrape()\<close> and of \<^verbatim>\<open>backoffScrape()\<close> keeps \<open>conn_state_inv\<close>: a
  stream handle is present only together with a subscription handle, and a subscription handle
  only together with a transport connection; and whenever such a call returns a message, all
  three fields are present.
\<close>

theorem conn_state_chain_invariant:
  "all_absent (newBackoffScrape c tlsc addr cmpt) \<and>
   (conn_state_inv bo \<longrightarrow>
      (case scrape e bo w of
         (r, bo', w') \<Rightarrow> conn_state_inv bo' \<and> (is_message r \<longrightarrow> all_present bo'))) \<and>
   (conn_state_inv bo \<longrightarrow>
      (case backoffScrape e bo w of
         (r, bo', w') \<Rightarrow> conn_state_inv bo' \<and> (is_message r \<longrightarrow> all_present bo'))) \<and>
   (conn_state_inv bo \<longrightarrow> all_absent (fst (close bo w)))"
proof -
  have "all_absent (newBackoffScrape c tlsc addr cmpt)"
    by (simp add: all_absent_def newBackoffScrape_def)
  moreover have "conn_state_inv bo \<longrightarrow> all_absent (fst (close bo w))"
    by (auto simp: close_def conn_state_inv_def all_absent_def split: option.splits)
  ultimately show ?thesis using scrape_inv[where bo = bo and e = e and w = w]
      backoffScrape_inv[where bo = bo and e = e and w = w] by blast
qed

theorem conn_state_chain_invariant_witness:
  "conn_state_inv (fst (snd (backoffScrape e_subscribe_fails bo_tidb world0))) \<and>
   (case scrape e_all_ok (fst (snd (backoffScrape e_subscribe_fails bo_tidb world0))) world0 of
      (r, bo', w') \<Rightarrow> is_message r \<and> conn_state_inv bo' \<and> all_present bo') \<and>
   all_absent (fst (close (fst (snd (backoffScrape e_subscribe_fails bo_tidb world0))) world0))"
  using conn_state_chain_invariant
    [of None None "''tidb:10080''" tidb "fst (snd (backoffScrape e_subscribe_fails bo_tidb world0))"
        e_all_ok world0]
  by (simp add: run_unfold example_unfold conn_state_inv_def all_present_def all_absent_def
      fired_def close_def)

text \<open>
  The triple can be partially populated between operations: for a TiDB target whose remote side
  accepts connections and refuses every subscription, \<^verbatim>\<open>backoffScrape()\<close> returns after its
  eighth attempt with the connection and the subscription handle of that attempt in place and
  no stream handle.
\<close>

theorem partial_population_counterexample:
  "conn (fst (snd (backoffScrape e_subscribe_fails bo_tidb world0))) = Some 7 \<and>
   client (fst (snd (backoffScrape e_subscribe_fails bo_tidb world0))) = Some (TopSQLPubSubClient 7) \<and>
   stream (fst (snd (backoffScrape e_subscribe_fails bo_tidb world0))) = None \<and>
   \<not> all_or_none (fst (snd (backoffScrape e_subscribe_fails bo_tidb world0)))"
  by (simp add: run_unfold example_unfold all_or_none_def all_present_def all_absent_def fired_def)

section \<open>Retry exhaustion\<close>

lemma failing_prefix_record:
  "\<not> is_message r \<Longrightarrow> \<forall>j<n. \<not> outcome (attempt e) (bo, r, w) j \<Longrightarrow>
     \<not> is_message (fst (snd (state_after (attempt e) n (bo, r, w))))"
proof (induction n)
  case 0
  then show ?case by simp
next
  case (Suc n)
  obtain bo1 r1 w1 where st: "state_after (attempt e) n (bo, r, w) = (bo1, r1, w1)"
    by (cases "state_after (attempt e) n (bo, r, w)") auto
  from Suc have ih: "\<not> is_message r1" using st by simp
  obtain ok bo2 r2 w2 where at: "attempt e n (bo1, r1, w1) = (ok, bo2, r2, w2)"
    by (cases "attempt e n (bo1, r1, w1)") auto
  from Suc.prems(2) have "\<not> outcome (attempt e) (bo, r, w) n" by simp
  then have nok: "\<not> ok" using st at by (simp add: outcome_def)
  from attempt_fail_record[where e = e and i = n and bo = bo1 and r = r1 and w = w1
      and bo' = bo2 and r' = r2 and w' = w2] at nok ih have "\<not> is_message r2"
    by simp
  then show ?case using st at by simp
qed

lemma not_message_TiDB: "\<not> is_message r \<Longrightarrow> (case r of TopSQLSubResponse res \<Rightarrow> res | _ \<Rightarrow> None) = None"
  by (cases r rule: is_message.cases) simp_all

lemma not_message_TiKV: "\<not> is_message r \<Longrightarrow> (case r of ResourceUsageRecord res \<Rightarrow> res | _ \<Rightarrow> None) = None"
  by (cases r rule: is_message.cases) simp_all

lemma loop_TiDB_nil:
  "fst (scrapeTiDBRecord e bo w) = None \<Longrightarrow>
     scrapeTiDB_loop e bo w = Some (snd (scrapeTiDBRecord e bo w))"
  by (subst scrapeTiDB_loop.simps) (auto split: prod.splits)

lemma loop_TiKV_nil:
  "fst (scrapeTiKVRecord e bo w) = None \<Longrightarrow>
     scrapeTiKV_loop e bo w = Some (snd (scrapeTiKVRecord e bo w))"
  by (subst scrapeTiKV_loop.simps) (auto split: prod.splits)

lemma state_after_ndials:
  "ndials (snd (snd (state_after (attempt e) n (bo, r, w)))) = ndials w + n"
proof (induction n)
  case 0
  then show ?case by simp
next
  case (Suc n)
  obtain bo1 r1 w1 where st: "state_after (attempt e) n (bo, r, w) = (bo1, r1, w1)"
    by (cases "state_after (attempt e) n (bo, r, w)") auto
  obtain ok bo2 r2 w2 where at: "attempt e n (bo1, r1, w1) = (ok, bo2, r2, w2)"
    by (cases "attempt e n (bo1, r1, w1)") auto
  from attempt_trace[OF at] have "ndials w2 = Suc (ndials w1)" by simp
  then show ?case using Suc st at by simp
qed

text \<open>
  Claim C2. Let \<^verbatim>\<open>scrape()\<close> enter \<^verbatim>\<open>backoffScrape()\<close> with \<^verbatim>\<open>maxRetryTimes = 8\<close>, let the
  first eight calls of the attempt function all fail, and let the seven waits between them run to
  their end. Then the executor reports failure after exactly eight calls; \<^verbatim>\<open>scrape()\<close> returns
  the record and leaves the receiver and the world of the eighth attempt, in which eight dials
  more have been made and seven waits more have gone by; that record is no message, so
  \<^verbatim>\<open>scrapeTiDBRecord\<close> and \<^verbatim>\<open>scrapeTiKVRecord\<close> return nil with that same receiver and world; and
  the drain loop that made the call returns there.
\<close>

theorem retry_exhaustion_is_terminal:
  assumes m: "maxRetryTimes bo = 8" and entry: "reconnect_entry e bo w = Some w1"
    and fails: "\<forall>j<8. \<not> outcome (attempt e) (bo, NilRecord, w1) j"
    and waits: "\<forall>t<7. \<not> fired (ctx bo) (nwaits w1 + t)"
  shows "(case state_after (attempt e) 8 (bo, NilRecord, w1) of
            (bo8, r8, w8) \<Rightarrow>
              backoffScrape_run e bo w1 = (False, 8, (bo8, r8, w8), nwaits w1 + 7) \<and>
              ndials w8 = ndials w1 + 8 \<and> \<not> is_message r8 \<and>
              scrape e bo w = (r8, bo8, w8\<lparr>nwaits := nwaits w1 + 7\<rparr>) \<and>
              scrapeTiDBRecord e bo w = (None, bo8, w8\<lparr>nwaits := nwaits w1 + 7\<rparr>) \<and>
              scrapeTiKVRecord e bo w = (None, bo8, w8\<lparr>nwaits := nwaits w1 + 7\<rparr>) \<and>
              scrapeTiDB_loop e bo w = Some (bo8, w8\<lparr>nwaits := nwaits w1 + 7\<rparr>) \<and>
              scrapeTiKV_loop e bo w = Some (bo8, w8\<lparr>nwaits := nwaits w1 + 7\<rparr>))"
proof -
  obtain bo8 r8 w8 where s8: "state_after (attempt e) 8 (bo, NilRecord, w1) = (bo8, r8, w8)"
    by (cases "state_after (attempt e) 8 (bo, NilRecord, w1)") auto
  have "WithRetryBackoff (ctx bo) 8 (firstWaitTime bo) (attempt e) (bo, NilRecord, w1) (nwaits w1)
          = (False, 8, state_after (attempt e) 8 (bo, NilRecord, w1), nwaits w1 + (8 - 1))"
    by (rule executor_exhausted) (use fails waits in simp_all)
  then have run: "backoffScrape_run e bo w1 = (False, 8, (bo8, r8, w8), nwaits w1 + 7)"
    using m s8 by (simp add: backoffScrape_run_def)
  have nd: "ndials w8 = ndials w1 + 8"
    using state_after_ndials[where e = e and n = 8 and bo = bo and r = NilRecord and w = w1] s8
    by simp
  have nm: "\<not> is_message r8"
    using failing_prefix_record[where r = NilRecord and n = 8 and e = e and bo = bo and w = w1]
      fails s8 by simp
  have sc: "scrape e bo w = (r8, bo8, w8\<lparr>nwaits := nwaits w1 + 7\<rparr>)"
    using run by (simp add: scrape_reconnect[OF entry] backoffScrape_def)
  have d: "scrapeTiDBRecord e bo w = (None, bo8, w8\<lparr>nwaits := nwaits w1 + 7\<rparr>)"
    using sc not_message_TiDB[OF nm] by (simp add: scrapeTiDBRecord_def)
  have k: "scrapeTiKVRecord e bo w = (None, bo8, w8\<lparr>nwaits := nwaits w1 + 7\<rparr>)"
    using sc not_message_TiKV[OF nm] by (simp add: scrapeTiKVRecord_def)
  have ld: "scrapeTiDB_loop e bo w = Some (bo8, w8\<lparr>nwaits := nwaits w1 + 7\<rparr>)"
    using loop_TiDB_nil[where e = e and bo = bo and w = w] d by simp
  have lk: "scrapeTiKV_loop e bo w = Some (bo8, w8\<lparr>nwaits := nwaits w1 + 7\<rparr>)"
    using loop_TiKV_nil[where e = e and bo = bo and w = w] k by simp
  show ?thesis unfolding s8 using run nd nm sc d k ld lk by simp
qed

theorem retry_exhaustion_is_terminal_witness:
  "maxRetryTimes bo_tidb = 8 \<and>
   reconnect_entry e_unreachable bo_tidb world0 = Some world0 \<and>
   (case backoffScrape_run e_unreachable bo_tidb world0 of
      (ok, calls, st, clk) \<Rightarrow> \<not> ok \<and> calls = 8) \<and>
   (case scrapeTiDBRecord e_unreachable bo_tidb world0 of
      (res, bo', w') \<Rightarrow>
        res = None \<and> ndials w' = 8 \<and> nwaits w' = 7 \<and>
        scrapeTiDB_loop e_unreachable bo_tidb world0 = Some (bo', w'))"
proof -
  have m: "maxRetryTimes bo_tidb = 8" by (simp add: example_unfold)
  have en: "reconnect_entry e_unreachable bo_tidb world0 = Some world0"
    by (simp add: reconnect_entry_def stream_handle_def example_unfold)
  have fl: "\<forall>j<8. \<not> outcome (attempt e_unreachable) (bo_tidb, NilRecord, world0) j"
    by (simp add: unreachable_fails)
  have nc: "\<forall>t<7. \<not> fired (ctx bo_tidb) (nwaits world0 + t)"
    by (simp add: fired_def example_unfold)
  have z: "ndials world0 = 0" "nwaits world0 = 0" by (simp_all add: world0_def)
  show ?thesis
    using retry_exhaustion_is_terminal[OF m en fl nc] m en z by (auto split: prod.splits)
qed

section \<open>A target of unrecognised kind\<close>

text \<open>
  Claim C9. For a receiver whose kind is neither TiDB nor TiKV and a dial that succeeds, the
  first call of the attempt function returns \<open>True\<close> through the empty default branch; the
  executor reports success after this one call and without a wait; \<^verbatim>\<open>backoffScrape()\<close> returns
  the nil record, having dialled (after closing a connection it still held) and neither
  subscribed nor read.
\<close>

theorem unrecognized_kind_attempt_succeeds:
  assumes "Kind (component bo) = ComponentOther x" and "dial_ok e (ndials w)"
  shows "fst (attempt e 0 (bo, NilRecord, w)) \<and>
         (case backoffScrape_run e bo w of
            (ok, calls, st, clk) \<Rightarrow> ok \<and> calls = 1 \<and> clk = nwaits w) \<and>
         (case backoffScrape e bo w of
            (r, bo', w') \<Rightarrow>
              r = NilRecord \<and> conn bo' = Some (ndials w) \<and>
              trace w' = EvDial (ndials w) (address bo) (tlsOption (tlsCfg bo)) #
                           (case conn bo of Some c \<Rightarrow> [EvClose c] | None \<Rightarrow> []) @ trace w)"
proof -
  have a0: "fst (attempt e 0 (bo, NilRecord, w))"
    using assms by (auto simp: attempt_unfold split: option.splits)
  then have o: "outcome (attempt e) (bo, NilRecord, w) 0" by (simp add: outcome_def)
  have run: "backoffScrape_run e bo w =
               (True, Suc 0, state_after (attempt e) (Suc 0) (bo, NilRecord, w), nwaits w + 0)"
    unfolding backoffScrape_run_def
    using wrb_stops_at[where j = 0 and f = "attempt e" and a = "(bo, NilRecord, w)"
        and m = "maxRetryTimes bo" and c = "ctx bo" and clk = "nwaits w" and iw = "firstWaitTime bo"] o
    by simp
  show ?thesis
    using a0 assms unfolding backoffScrape_def run
    by (auto simp: attempt_unfold split: option.splits)
qed

theorem unrecognized_kind_attempt_succeeds_witness:
  "Kind (component bo_pd) = ComponentOther ''pd'' \<and> dial_ok e_all_ok (ndials world0) \<and>
   (case backoffScrape_run e_all_ok bo_pd world0 of
      (ok, calls, st, clk) \<Rightarrow> ok \<and> calls = 1) \<and>
   fst (backoffScrape e_all_ok bo_pd world0) = NilRecord"
proof -
  have k: "Kind (component bo_pd) = ComponentOther ''pd''" by (simp add: example_unfold)
  have d: "dial_ok e_all_ok (ndials world0)" by (simp add: example_unfold)
  show ?thesis
    using unrecognized_kind_attempt_succeeds[OF k d] k d by (auto split: prod.splits)
qed

section \<open>Records of the two kinds\<close>

lemma attempt_kind_state:
  "attempt e i (bo, r, w) = (ok, bo', r', w') \<Longrightarrow>
   component bo = cmpt \<Longrightarrow> stream_matches (Kind cmpt) (stream bo) \<Longrightarrow> kind_matches (Kind cmpt) r \<Longrightarrow>
     component bo' = cmpt \<and> stream_matches (Kind cmpt) (stream bo') \<and> kind_matches (Kind cmpt) r'"
  using attempt_kind[of e i bo r w ok bo' r' w'] by simp

lemma backoffScrape_kind:
  assumes sm: "stream_matches (Kind (component bo)) (stream bo)"
  shows "(case backoffScrape e bo w of
            (r, bo', w') \<Rightarrow>
              kind_matches (Kind (component bo)) r \<and> component bo' = component bo \<and>
              stream_matches (Kind (component bo')) (stream bo'))"
proof -
  let ?P = "\<lambda>st :: backoffScrape \<times> record_iface \<times> world. case st of (bo', r', w') \<Rightarrow>
              component bo' = component bo \<and> stream_matches (Kind (component bo)) (stream bo') \<and>
              kind_matches (Kind (component bo)) r'"
  have step: "\<And>j a. ?P a \<Longrightarrow> ?P (snd (attempt e j a))"
  proof -
    fix j a assume pa: "?P a"
    obtain bo1 r1 w1 where a: "a = (bo1, r1, w1)" by (cases a) auto
    obtain ok bo2 r2 w2 where at: "attempt e j (bo1, r1, w1) = (ok, bo2, r2, w2)"
      by (cases "attempt e j (bo1, r1, w1)") auto
    from attempt_kind_state[OF at, of "component bo"] pa a
    show "?P (snd (attempt e j a))" using at a by simp
  qed
  have init: "?P (bo, NilRecord, w)" using sm by (simp add: kind_matches_def)
  obtain ok calls st clk where run: "backoffScrape_run e bo w = (ok, calls, st, clk)"
    by (cases "backoffScrape_run e bo w") auto
  from backoffScrape_run_state[where e = e and bo = bo and w = w] run
  have st: "st = state_after (attempt e) calls (bo, NilRecord, w)" by simp
  have "?P st" unfolding st by (rule state_after_inv[where P = ?P, OF step init])
  then show ?thesis using run by (auto simp: backoffScrape_def split: prod.splits)
qed

lemma scrape_kind:
  assumes sm: "stream_matches (Kind (component bo)) (stream bo)"
  shows "(case scrape e bo w of
            (r, bo', w') \<Rightarrow>
              kind_matches (Kind (component bo)) r \<and> component bo' = component bo \<and>
              stream_matches (Kind (component bo')) (stream bo'))"
proof (cases "reconnect_entry e bo w")
  case None
  then show ?thesis using sm
    by (auto simp: reconnect_entry_def scrape_def stream_handle_def stream_matches_def
        kind_matches_def split: option.splits stream_iface.splits prod.splits)
next
  case (Some w1)
  show ?thesis unfolding scrape_reconnect[OF Some] by (rule backoffScrape_kind[OF sm])
qed

text \<open>
  Claim C7. \<^verbatim>\<open>scrapeTiDBRecord\<close> returns a message only when \<^verbatim>\<open>scrape()\<close> produced that very
  message as a \<^verbatim>\<open>*tipb.TopSQLSubResponse\<close>, and \<^verbatim>\<open>scrapeTiKVRecord\<close> only when it produced it as
  a \<^verbatim>\<open>*resource_usage_agent.ResourceUsageRecord\<close>; for every other value of \<^verbatim>\<open>scrape()\<close> they
  return nil. Moreover a receiver whose stream handle, if any, is of the type of its kind stays
  so under \<^verbatim>\<open>scrape()\<close>, keeps its target, and \<^verbatim>\<open>scrape()\<close> yields nil or a record of the type
  of that kind: a stream bound to one kind never yields a record of the other.
\<close>

theorem record_demultiplexing:
  "(fst (scrapeTiDBRecord e bo w) = Some p \<longrightarrow> fst (scrape e bo w) = TopSQLSubResponse (Some p)) \<and>
   (fst (scrapeTiKVRecord e bo w) = Some p \<longrightarrow> fst (scrape e bo w) = ResourceUsageRecord (Some p)) \<and>
   (stream_matches (Kind (component bo)) (stream bo) \<longrightarrow>
      (case scrape e bo w of
         (r, bo', w') \<Rightarrow>
           kind_matches (Kind (component bo)) r \<and> component bo' = component bo \<and>
           stream_matches (Kind (component bo')) (stream bo')))"
proof -
  have "fst (scrapeTiDBRecord e bo w) = Some p \<longrightarrow> fst (scrape e bo w) = TopSQLSubResponse (Some p)"
    by (auto simp: scrapeTiDBRecord_def split: prod.splits record_iface.splits)
  moreover
  have "fst (scrapeTiKVRecord e bo w) = Some p \<longrightarrow> fst (scrape e bo w) = ResourceUsageRecord (Some p)"
    by (auto simp: scrapeTiKVRecord_def split: prod.splits record_iface.splits)
  ultimately show ?thesis using scrape_kind[where bo = bo and e = e and w = w] by blast
qed

theorem record_demultiplexing_witness:
  "fst (scrapeTiDBRecord e_all_ok bo_tidb world0) = Some 0 \<and>
   fst (scrape e_all_ok bo_tidb world0) = TopSQLSubResponse (Some 0) \<and>
   stream_matches (Kind (component bo_tidb)) (stream bo_tidb) \<and>
   kind_matches ComponentTiDB (fst (scrape e_all_ok bo_tidb world0)) \<and>
   fst (scrapeTiKVRecord e_all_ok bo_tidb world0) = None"
  using record_demultiplexing[of e_all_ok bo_tidb world0 0]
  by (simp add: scrapeTiDBRecord_def scrapeTiKVRecord_def run_unfold example_unfold
      stream_matches_def kind_matches_def)

text \<open>
  Claim C10. When \<^verbatim>\<open>scrape()\<close> produces a record of the other response type, the wrapper
  returns nil; and on a nil from the wrapper, whatever its cause, the drain loop returns at once
  with the state the wrapper left. So a record of the wrong shape ends the loop exactly as an
  exhausted retry does.
\<close>

theorem wrong_shape_record_is_terminal:
  "(fst (scrape e bo w) = ResourceUsageRecord x \<longrightarrow> fst (scrapeTiDBRecord e bo w) = None) \<and>
   (fst (scrape e bo w) = TopSQLSubResponse x \<longrightarrow> fst (scrapeTiKVRecord e bo w) = None) \<and>
   (fst (scrapeTiDBRecord e bo w) = None \<longrightarrow>
      scrapeTiDB_loop e bo w = Some (snd (scrapeTiDBRecord e bo w))) \<and>
   (fst (scrapeTiKVRecord e bo w) = None \<longrightarrow>
      scrapeTiKV_loop e bo w = Some (snd (scrapeTiKVRecord e bo w)))"
proof -
  have "fst (scrape e bo w) = ResourceUsageRecord x \<longrightarrow> fst (scrapeTiDBRecord e bo w) = None"
    by (auto simp: scrapeTiDBRecord_def split: prod.splits)
  moreover
  have "fst (scrape e bo w) = TopSQLSubResponse x \<longrightarrow> fst (scrapeTiKVRecord e bo w) = None"
    by (auto simp: scrapeTiKVRecord_def split: prod.splits)
  ultimately show ?thesis
    using loop_TiDB_nil[of e bo w] loop_TiKV_nil[of e bo w] by blast
qed

theorem wrong_shape_record_is_terminal_witness:
  "fst (scrape e_all_ok bo_tikv world0) = ResourceUsageRecord (Some 0) \<and>
   fst (scrapeTiDBRecord e_all_ok bo_tikv world0) = None \<and>
   scrapeTiDB_loop e_all_ok bo_tikv world0 = Some (snd (scrapeTiDBRecord e_all_ok bo_tikv world0))"
proof -
  have s: "fst (scrape e_all_ok bo_tikv world0) = ResourceUsageRecord (Some 0)"
    by (simp add: run_unfold example_unfold)
  show ?thesis
    using wrong_shape_record_is_terminal[of e_all_ok bo_tikv world0 "Some 0"] s by simp
qed

section \<open>Reconnecting after a failed read\<close>

lemma attempt_events_trace:
  "attempt e i (bo, r, w) = (ok, bo', r', w') \<Longrightarrow> trace w' = attempt_events e bo w @ trace w"
  by (auto simp: attempt_unfold attempt_events_def split: option.splits ComponentKind.splits if_splits)

lemma attempt_events_recv: "EvRecv h \<in> set (attempt_events e bo w) \<Longrightarrow> h = ndials w"
  by (auto simp: attempt_events_def split: option.splits if_splits)

lemma attempt_step:
  "attempt e i (bo, r, w) = (ok, bo', r', w') \<Longrightarrow>
     ndials w' = Suc (ndials w) \<and> trace w' = attempt_events e bo w @ trace w \<and>
     (\<forall>h. stream_handle bo' = Some h \<longrightarrow>
            h = ndials w \<or> (conn bo = None \<and> stream_handle bo = Some h))"
  using attempt_trace[of e i bo r w ok bo' r' w'] attempt_events_trace[of e i bo r w ok bo' r' w']
  by simp

lemma reconnect_trace:
  assumes cn: "conn bo = Some c"
  shows "(case state_after (attempt e) (Suc n) (bo, r, w) of
            (bo', r', w') \<Rightarrow>
              ndials w < ndials w' \<and>
              (\<exists>evs. trace w' = evs @ attempt_events e bo w @ trace w \<and>
                     (\<forall>h. EvRecv h \<in> set evs \<longrightarrow> ndials w < h)) \<and>
              (\<forall>h. stream_handle bo' = Some h \<longrightarrow> ndials w \<le> h))"
proof (induction n)
  case 0
  obtain ok bo1 r1 w1 where at: "attempt e 0 (bo, r, w) = (ok, bo1, r1, w1)"
    by (cases "attempt e 0 (bo, r, w)") auto
  from attempt_step[OF at] cn show ?case using at by auto
next
  case (Suc n)
  obtain bo1 r1 w1 where st: "state_after (attempt e) (Suc n) (bo, r, w) = (bo1, r1, w1)"
    by (cases "state_after (attempt e) (Suc n) (bo, r, w)") auto
  from Suc st obtain evs where nd: "ndials w < ndials w1"
    and tr: "trace w1 = evs @ attempt_events e bo w @ trace w"
    and rc: "\<forall>h. EvRecv h \<in> set evs \<longrightarrow> ndials w < h"
    and sh: "\<forall>h. stream_handle bo1 = Some h \<longrightarrow> ndials w \<le> h"
    by auto
  obtain ok bo2 r2 w2 where at: "attempt e (Suc n) (bo1, r1, w1) = (ok, bo2, r2, w2)"
    by (cases "attempt e (Suc n) (bo1, r1, w1)") auto
  from attempt_step[OF at]
  have nd2: "ndials w2 = Suc (ndials w1)"
    and tr2: "trace w2 = attempt_events e bo1 w1 @ trace w1"
    and sh2: "\<forall>h. stream_handle bo2 = Some h \<longrightarrow>
                h = ndials w1 \<or> (conn bo1 = None \<and> stream_handle bo1 = Some h)"
    by simp_all
  have t: "trace w2 = (attempt_events e bo1 w1 @ evs) @ attempt_events e bo w @ trace w"
    using tr tr2 by simp
  have r: "\<forall>h. EvRecv h \<in> set (attempt_events e bo1 w1 @ evs) \<longrightarrow> ndials w < h"
    using rc nd attempt_events_recv[where e = e and bo = bo1 and w = w1] by auto
  have s: "\<forall>h. stream_handle bo2 = Some h \<longrightarrow> ndials w \<le> h"
    using sh sh2 nd by auto
  have "state_after (attempt e) (Suc (Suc n)) (bo, r, w) = (bo2, r2, w2)"
    using st at by simp
  then show ?case using nd nd2 t r s by (simp del: state_after.simps)
qed

lemma backoffScrape_trace:
  assumes cn: "conn bo = Some c"
  shows "(case backoffScrape e bo w of
            (r, bo', w') \<Rightarrow>
              (\<exists>evs. trace w' = evs @ attempt_events e bo w @ trace w \<and>
                     (\<forall>h. EvRecv h \<in> set evs \<longrightarrow> ndials w < h)) \<and>
              (\<forall>h. stream_handle bo' = Some h \<longrightarrow> ndials w \<le> h))"
proof -
  obtain ok calls st clk where run: "backoffScrape_run e bo w = (ok, calls, st, clk)"
    by (cases "backoffScrape_run e bo w") auto
  from backoffScrape_run_state[where e = e and bo = bo and w = w] run
  have pos: "0 < calls" and st: "st = state_after (attempt e) calls (bo, NilRecord, w)"
    by simp_all
  obtain n where n: "calls = Suc n" using pos by (cases calls) auto
  obtain bo' r' w' where s3: "st = (bo', r', w')" by (cases st) auto
  have sa: "state_after (attempt e) (Suc n) (bo, NilRecord, w) = (bo', r', w')"
    using st n s3 by simp
  have "(\<exists>evs. trace w' = evs @ attempt_events e bo w @ trace w \<and>
               (\<forall>h. EvRecv h \<in> set evs \<longrightarrow> ndials w < h)) \<and>
        (\<forall>h. stream_handle bo' = Some h \<longrightarrow> ndials w \<le> h)"
    using reconnect_trace[OF cn, where e = e and n = n and r = NilRecord and w = w]
    unfolding sa by simp
  then show ?thesis using run s3 by (simp add: backoffScrape_def)
qed

text \<open>
  Claim C4. Let the receiver hold a connection \<open>c\<close> and a stream \<open>s\<close> opened by an earlier dial,
  and let the read of \<open>s\<close> deliver nothing. Then \<^verbatim>\<open>scrape()\<close> continues with
  \<^verbatim>\<open>backoffScrape()\<close> in the same call. What happens after the failed read starts with the
  actions of the first attempt, which are the close of \<open>c\<close> and then the dial of a new connection
  before anything else; \<open>s\<close> is not read again in this call and is not the stream held
  afterwards. Every attempt performs exactly the actions of \<open>attempt_events\<close>: close of the
  connection still held, dial, then the subscribe call of the target's kind on the new
  connection and a read of the new stream; and an attempt that starts with a connection and
  whose dial fails leaves all three fields absent, so they were cleared before the dial.
\<close>

theorem read_failure_reconnects:
  assumes sh: "stream_handle bo = Some s" and rf: "recv_msg e s (nreads w s) = None"
    and cn: "conn bo = Some c" and old: "s < ndials w"
  shows "scrape e bo w = backoffScrape e bo (snd (Recv e s w)) \<and>
         (case scrape e bo w of
            (r, bo', w') \<Rightarrow>
              (\<exists>evs. trace w' = evs @ attempt_events e bo w @ EvRecv s # trace w \<and>
                     EvRecv s \<notin> set evs \<and> EvRecv s \<notin> set (attempt_events e bo w)) \<and>
              stream_handle bo' \<noteq> Some s) \<and>
         (\<exists>evs. attempt_events e bo w =
                  evs @ [EvDial (ndials w) (address bo) (tlsOption (tlsCfg bo)), EvClose c]) \<and>
         (\<forall>i bo1 r1 w1.
            trace (snd (snd (snd (attempt e i (bo1, r1, w1))))) = attempt_events e bo1 w1 @ trace w1 \<and>
            (conn bo1 \<noteq> None \<and> \<not> dial_ok e (ndials w1) \<longrightarrow>
               all_absent (fst (snd (attempt e i (bo1, r1, w1))))))"
proof -
  let ?w1 = "snd (Recv e s w)"
  have entry: "reconnect_entry e bo w = Some ?w1"
    using sh rf by (simp add: reconnect_entry_def Recv_def)
  have eq: "scrape e bo w = backoffScrape e bo ?w1" by (rule scrape_reconnect[OF entry])
  have w1: "ndials ?w1 = ndials w" "trace ?w1 = EvRecv s # trace w"
    by (simp_all add: Recv_def)
  have ev: "attempt_events e bo ?w1 = attempt_events e bo w"
    by (simp add: attempt_events_def Recv_def)
  obtain r bo' w' where b: "backoffScrape e bo ?w1 = (r, bo', w')"
    by (cases "backoffScrape e bo ?w1") auto
  from backoffScrape_trace[OF cn, where e = e and w = ?w1] b w1 ev obtain evs
    where tr: "trace w' = evs @ attempt_events e bo w @ EvRecv s # trace w"
      and rc: "\<forall>h. EvRecv h \<in> set evs \<longrightarrow> ndials w < h"
      and hs: "\<forall>h. stream_handle bo' = Some h \<longrightarrow> ndials w \<le> h"
    by auto
  have n1: "EvRecv s \<notin> set evs" using rc old by auto
  have n2: "EvRecv s \<notin> set (attempt_events e bo w)"
    using attempt_events_recv[where h = s and e = e and bo = bo and w = w] old by auto
  have n3: "stream_handle bo' \<noteq> Some s" using hs old by auto
  have first: "\<exists>evs. attempt_events e bo w =
                 evs @ [EvDial (ndials w) (address bo) (tlsOption (tlsCfg bo)), EvClose c]"
    using cn by (simp add: attempt_events_def)
  have every: "\<forall>i bo1 r1 w1.
            trace (snd (snd (snd (attempt e i (bo1, r1, w1))))) = attempt_events e bo1 w1 @ trace w1 \<and>
            (conn bo1 \<noteq> None \<and> \<not> dial_ok e (ndials w1) \<longrightarrow>
               all_absent (fst (snd (attempt e i (bo1, r1, w1)))))"
  proof (intro allI conjI impI)
    fix i bo1 r1 w1
    obtain ok bo2 r2 w2 where at: "attempt e i (bo1, r1, w1) = (ok, bo2, r2, w2)"
      by (cases "attempt e i (bo1, r1, w1)") auto
    show "trace (snd (snd (snd (attempt e i (bo1, r1, w1))))) = attempt_events e bo1 w1 @ trace w1"
      using attempt_events_trace[OF at] at by simp
    assume "conn bo1 \<noteq> None \<and> \<not> dial_ok e (ndials w1)"
    then obtain c1 where "conn bo1 = Some c1" "\<not> dial_ok e (ndials w1)" by auto
    from attempt_clears[OF at this] show "all_absent (fst (snd (attempt e i (bo1, r1, w1))))"
      using at by simp
  qed
  show ?thesis
    using eq b tr n1 n2 n3 first every by (simp del: split_paired_All) 
qed

lemma streaming_state:
  "stream_handle bo_streaming = Some 0 \<and> conn bo_streaming = Some 0 \<and>
   ndials w_streaming = 1 \<and> nreads w_streaming 0 = 1 \<and>
   trace w_streaming =
     [EvRecv 0, EvSubscribe ComponentTiDB 0, EvDial 0 ''tidb:10080'' WithInsecure]"
  by (simp add: run_unfold example_unfold stream_handle_def)

theorem read_failure_reconnects_witness:
  "stream_handle bo_streaming = Some 0 \<and>
   recv_msg e_one_message 0 (nreads w_streaming 0) = None \<and>
   conn bo_streaming = Some 0 \<and> 0 < ndials w_streaming \<and>
   scrape e_one_message bo_streaming w_streaming =
     backoffScrape e_one_message bo_streaming (snd (Recv e_one_message 0 w_streaming)) \<and>
   fst (scrape e_one_message bo_streaming w_streaming) = TopSQLSubResponse (Some 10) \<and>
   stream_handle (fst (snd (scrape e_one_message bo_streaming w_streaming))) = Some 1 \<and>
   trace (snd (snd (scrape e_one_message bo_streaming w_streaming))) =
     [EvRecv 1, EvSubscribe ComponentTiDB 1, EvDial 1 ''tidb:10080'' WithInsecure, EvClose 0,
      EvRecv 0,
      EvRecv 0, EvSubscribe ComponentTiDB 0, EvDial 0 ''tidb:10080'' WithInsecure]"
proof -
  have h1: "stream_handle bo_streaming = Some 0" using streaming_state by simp
  have h2: "recv_msg e_one_message 0 (nreads w_streaming 0) = None"
    using streaming_state by (simp add: e_one_message_def)
  have h3: "conn bo_streaming = Some 0" using streaming_state by simp
  have h4: "0 < ndials w_streaming" using streaming_state by simp
  have ev: "fst (scrape e_one_message bo_streaming w_streaming) = TopSQLSubResponse (Some 10) \<and>
     stream_handle (fst (snd (scrape e_one_message bo_streaming w_streaming))) = Some 1 \<and>
     trace (snd (snd (scrape e_one_message bo_streaming w_streaming))) =
       [EvRecv 1, EvSubscribe ComponentTiDB 1, EvDial 1 ''tidb:10080'' WithInsecure, EvClose 0,
        EvRecv 0,
        EvRecv 0, EvSubscribe ComponentTiDB 0, EvDial 0 ''tidb:10080'' WithInsecure]"
    by (simp add: run_unfold example_unfold stream_handle_def)
  show ?thesis
    using read_failure_reconnects[OF h1 h2 h3 h4] h1 h2 h3 h4 ev by simp
qed

end
